theory Spec2Isabelle
  imports Complex_Main "HOL-Library.Word"
begin

unbundle bit_operations_syntax

section \<open>bTCP: segment codec (btcp\_socket.py)\<close>

text \<open>
  Python values are modelled as follows: \<open>bytes\<close> objects are lists of 8-bit words,
  Python integers are unbounded \<open>int\<close>, an attribute that starts as \<open>None\<close> is an
  \<open>option\<close>, and every exception of the source is a value of type \<open>error\<close>.
\<close>

type_synonym byte = "8 word"
type_synonym bytes = "byte list"

datatype BTCPStates = CLOSED | ACCEPTING | SYN_SENT | SYN_RCVD | ESTABLISHED | FIN_SENT | CLOSING

datatype error = TypeError | StructError | IndexError

text \<open>The value a Python call hands back: all methods modelled here return \<open>None\<close>.\<close>

datatype pyval = PyNone | PyBool bool | PyInt int

datatype outcome = Returned pyval | Raised error

text \<open>
  Modelled from the spec: btcp/constants.py is not among the sources. The header is the
  ten bytes of the struct format \<open>!HHBBHH\<close> and the payload has the fixed size 1008
  that the source also writes out literally when it pads a segment.
\<close>

definition HEADER_SIZE :: nat where
  "HEADER_SIZE = 10"

definition PAYLOAD_SIZE :: nat where
  "PAYLOAD_SIZE = 1008"

subsection \<open>struct.pack and struct.unpack for the format !HHBBHH\<close>

definition in_H :: "int \<Rightarrow> bool" where
  "in_H v = (0 \<le> v \<and> v \<le> 65535)"

definition in_B :: "int \<Rightarrow> bool" where
  "in_B v = (0 \<le> v \<and> v \<le> 255)"

definition pack_H :: "int \<Rightarrow> bytes" where
  "pack_H v = [word_of_int (v div 256), word_of_int (v mod 256)]"

definition pack_B :: "int \<Rightarrow> bytes" where
  "pack_B v = [word_of_int v]"

definition unpack_H :: "byte \<Rightarrow> byte \<Rightarrow> int" where
  "unpack_H hi lo = uint hi * 256 + uint lo"

record header =
  h_seqnum :: int
  h_acknum :: int
  h_syn :: bool
  h_ack :: bool
  h_fin :: bool
  h_window :: int
  h_datalen :: int
  h_checksum :: int

text \<open>
  \<open>build_segment_header\<close>: the flag byte is \<open>syn << 2 | ack << 1 | fin\<close>;
  \<open>struct.pack\<close> raises \<open>struct.error\<close> for an argument outside its field.
\<close>

definition build_segment_header ::
  "int \<Rightarrow> int \<Rightarrow> bool \<Rightarrow> bool \<Rightarrow> bool \<Rightarrow> int \<Rightarrow> int \<Rightarrow> int \<Rightarrow> error + bytes" where
  "build_segment_header seqnum acknum syn_set ack_set fin_set window datalen checksum =
    (let flag_byte = push_bit 2 (of_bool syn_set) OR push_bit 1 (of_bool ack_set) OR of_bool fin_set
     in if in_H seqnum \<and> in_H acknum \<and> in_B flag_byte \<and> in_B window \<and> in_H datalen \<and> in_H checksum
        then Inr (pack_H seqnum @ pack_H acknum @ pack_B flag_byte @ pack_B window
                  @ pack_H datalen @ pack_H checksum)
        else Inl StructError)"

text \<open>
  \<open>unpack_segment_header\<close>: \<open>struct.unpack\<close> needs exactly ten bytes; the flags are
  read off by comparison and remainder, so every flag byte decodes.
\<close>

fun unpack_segment_header :: "bytes \<Rightarrow> error + header" where
  "unpack_segment_header [s1, s0, a1, a0, f, w, l1, l0, c1, c0] =
    (let flags = uint f;
         syn_set = flags > 3;
         flags = flags mod 4;
         ack_set = flags > 1;
         flags = flags mod 2;
         fin_set = flags > 0
     in Inr \<lparr> h_seqnum = unpack_H s1 s0, h_acknum = unpack_H a1 a0,
              h_syn = syn_set, h_ack = ack_set, h_fin = fin_set,
              h_window = uint w, h_datalen = unpack_H l1 l0, h_checksum = unpack_H c1 c0 \<rparr>)"
| "unpack_segment_header _ = Inl StructError"

subsection \<open>in\_cksum\<close>

text \<open>\<open>struct.iter_unpack('!H', segment)\<close> on a buffer of even length.\<close>

fun iter_unpack_H :: "bytes \<Rightarrow> int list" where
  "iter_unpack_H (hi # lo # rest) = unpack_H hi lo # iter_unpack_H rest"
| "iter_unpack_H _ = []"

text \<open>One round of the loop body: add the word, fold when the sum exceeds \<open>2 ** 16\<close>.\<close>

definition cksum_step :: "int \<Rightarrow> int \<Rightarrow> int" where
  "cksum_step checksum b =
    (let checksum = checksum + b
     in if checksum > 2 ^ 16 then checksum - (2 ^ 16 - 1) else checksum)"

text \<open>
  \<open>in_cksum\<close>: on an empty segment the source evaluates \<open>int(0x0000, 16)\<close>, which raises
  \<open>TypeError\<close>; \<open>iter_unpack\<close> raises \<open>struct.error\<close> on a buffer of odd length.
\<close>

definition in_cksum :: "bytes \<Rightarrow> error + int" where
  "in_cksum segment =
    (if segment = [] then Inl TypeError
     else if odd (length segment) then Inl StructError
     else Inr (2 ^ 16 - foldl cksum_step 0 (iter_unpack_H segment)))"

section \<open>Client socket (client\_socket.py)\<close>

text \<open>
  An entry of \<open>segments_in_transit\<close> is the tuple (time of sending, seqnum, segment).
  The lossy layer is the list of the segments handed to \<open>send_segment\<close>, oldest first;
  the send buffer is the queue of chunks, head first.
\<close>

type_synonym transit = "real \<times> int \<times> bytes"

record client =
  c_state :: BTCPStates
  c_seqnum :: "int option"
  c_acknum :: int
  client_window :: int
  server_window :: int
  last_rec_ack :: int
  synack_recv :: bool
  finack_recv :: bool
  segments_in_transit :: "transit list"
  sendbuf :: "bytes list"
  c_sent :: "bytes list"

text \<open>\<open>__init__\<close>; the constant \<open>WINDOW\<close> of constants.py is a parameter.\<close>

definition client_init :: "int \<Rightarrow> client" where
  "client_init WINDOW =
    \<lparr> c_state = CLOSED, c_seqnum = None, c_acknum = 0, client_window = WINDOW,
      server_window = WINDOW, last_rec_ack = 0, synack_recv = False, finack_recv = False,
      segments_in_transit = [], sendbuf = [], c_sent = [] \<rparr>"

text \<open>
  The clean-up loop of the ESTABLISHED branch: read entry \<open>i\<close> (an \<open>IndexError\<close> when
  there is none), and step on while the acknowledged number is above its seqnum.
\<close>

function scan_in_transit :: "int \<Rightarrow> transit list \<Rightarrow> nat \<Rightarrow> error + nat" where
  "scan_in_transit acked xs i =
    (if i < length xs
     then (case xs ! i of (timeout, acknum, segment) \<Rightarrow>
             if acked > acknum then scan_in_transit acked xs (i + 1) else Inr i)
     else Inl IndexError)"
  by pat_completeness auto
termination
  by (relation "measure (\<lambda>(acked, xs, i). length xs - i)") auto

definition client_syn_sent :: "client \<Rightarrow> header \<Rightarrow> client \<times> outcome" where
  "client_syn_sent self h =
    (if h_syn h \<and> h_ack h
     then (case c_seqnum self of
             None \<Rightarrow> (self, Raised TypeError)
           | Some s \<Rightarrow>
               if s + 1 = h_acknum h
               then (self\<lparr> c_acknum := h_seqnum h, server_window := h_window h,
                           synack_recv := True \<rparr>, Returned PyNone)
               else (self, Returned PyNone))
     else (self, Returned PyNone))"

definition client_fin_sent :: "client \<Rightarrow> header \<Rightarrow> client \<times> outcome" where
  "client_fin_sent self h =
    (if h_ack h \<and> h_fin h
     then (case c_seqnum self of
             None \<Rightarrow> (self, Raised TypeError)
           | Some s \<Rightarrow>
               if s + 1 = h_acknum h
               then (self\<lparr> finack_recv := True \<rparr>, Returned PyNone)
               else (self, Returned PyNone))
     else (self, Returned PyNone))"

definition client_established :: "client \<Rightarrow> header \<Rightarrow> client \<times> outcome" where
  "client_established self h =
    (let self = self\<lparr> server_window := h_window h \<rparr>
     in if last_rec_ack self < h_acknum h \<and> h_ack h
        then (let self = self\<lparr> last_rec_ack := h_acknum h \<rparr>
              in case scan_in_transit (last_rec_ack self) (segments_in_transit self) 0 of
                   Inl e \<Rightarrow> (self, Raised e)
                 | Inr i \<Rightarrow>
                     (self\<lparr> segments_in_transit := drop i (segments_in_transit self) \<rparr>,
                      Returned PyNone))
        else (self, Returned PyNone))"

text \<open>
  \<open>BTCPClientSocket.lossy_layer_segment_received\<close>: the checksum is recomputed over
  the header fields alone, with the checksum argument left at its default 0.
\<close>

definition client_lossy_layer_segment_received :: "client \<Rightarrow> bytes \<Rightarrow> client \<times> outcome" where
  "client_lossy_layer_segment_received self segment =
    (if c_state self = CLOSED then (self, Returned PyNone)
     else case unpack_segment_header (take HEADER_SIZE segment) of
            Inl e \<Rightarrow> (self, Raised e)
          | Inr h \<Rightarrow>
             (case build_segment_header (h_seqnum h) (h_acknum h) (h_syn h) (h_ack h) (h_fin h)
                     (h_window h) (h_datalen h) 0 of
                Inl e \<Rightarrow> (self, Raised e)
              | Inr hb \<Rightarrow>
                 (case in_cksum hb of
                    Inl e \<Rightarrow> (self, Raised e)
                  | Inr check \<Rightarrow>
                      if check \<noteq> h_checksum h then (self, Returned PyNone)
                      else if c_state self = SYN_SENT then client_syn_sent self h
                      else if c_state self = FIN_SENT then client_fin_sent self h
                      else if c_state self = ESTABLISHED then client_established self h
                      else (self, Returned PyNone))))"

text \<open>
  \<open>lossy_layer_tick\<close>, first loop: every entry whose timer has run out is stamped with
  the current time and sent again. The clock is read once per tick (\<open>now\<close>); the
  constant \<open>TIMEOUT\<close> is a parameter.
\<close>

primrec resend_expired :: "real \<Rightarrow> real \<Rightarrow> transit list \<Rightarrow> transit list \<times> bytes list" where
  "resend_expired TIMEOUT now [] = ([], [])"
| "resend_expired TIMEOUT now (entry # rest) =
    (case entry of (timeout, seqnum, segment) \<Rightarrow>
       (case resend_expired TIMEOUT now rest of (rest', out) \<Rightarrow>
          if timeout + TIMEOUT < now
          then ((now, seqnum, segment) # rest', segment # out)
          else (entry # rest', out)))"

text \<open>
  Second loop: while the window has room, take a chunk from the send buffer, pad it,
  build the segment in two passes, record and send it. \<open>seqnum - last_rec_ack\<close> on a
  \<open>seqnum\<close> that is still \<open>None\<close> raises \<open>TypeError\<close>; an empty buffer ends the loop.
\<close>

function send_window :: "real \<Rightarrow> client \<Rightarrow> client \<times> outcome" where
  "send_window now self =
    (case c_seqnum self of
       None \<Rightarrow> (self, Raised TypeError)
     | Some seqnum \<Rightarrow>
         if seqnum - last_rec_ack self < server_window self
         then (case sendbuf self of
                 [] \<Rightarrow> (self, Returned PyNone)
               | chunk # rest \<Rightarrow>
                   (let self = self\<lparr> sendbuf := rest \<rparr>;
                        datalen = length chunk;
                        chunk = (if datalen < PAYLOAD_SIZE
                                 then chunk @ replicate (PAYLOAD_SIZE - datalen) 0 else chunk)
                    in case build_segment_header seqnum (c_acknum self) False False False
                              (client_window self) (int datalen) 0 of
                         Inl e \<Rightarrow> (self, Raised e)
                       | Inr header \<Rightarrow>
                          (case in_cksum (header @ chunk) of
                             Inl e \<Rightarrow> (self, Raised e)
                           | Inr checksum \<Rightarrow>
                              (case build_segment_header seqnum (c_acknum self) False False False
                                      (client_window self) (int datalen) checksum of
                                 Inl e \<Rightarrow> (self, Raised e)
                               | Inr header \<Rightarrow>
                                   send_window now
                                     (self\<lparr> segments_in_transit :=
                                               segments_in_transit self @ [(now, seqnum, header @ chunk)],
                                            c_sent := c_sent self @ [header @ chunk],
                                            c_seqnum := Some (seqnum + 1) \<rparr>)))))
         else (self, Returned PyNone))"
  by pat_completeness auto
termination
  by (relation "measure (\<lambda>(now, self). length (sendbuf self))") auto

definition client_lossy_layer_tick :: "real \<Rightarrow> real \<Rightarrow> client \<Rightarrow> client \<times> outcome" where
  "client_lossy_layer_tick TIMEOUT now self =
    (case resend_expired TIMEOUT now (segments_in_transit self) of
       (transit, out) \<Rightarrow>
         send_window now (self\<lparr> segments_in_transit := transit, c_sent := c_sent self @ out \<rparr>))"

subsection \<open>connect\<close>

text \<open>The all-zero payload of 1008 bytes that the handshake segments carry.\<close>

definition zero_payload :: bytes where
  "zero_payload = replicate 1008 0"

text \<open>
  \<open>connect\<close> sleeps in the application thread while the network thread calls
  \<open>lossy_layer_segment_received\<close>. One wait of the retry loop is modelled by the list
  of segments that arrive during it: they are handled in order until \<open>synack_recv\<close> is
  set or the wait times out. An exception in the network thread stays there; the
  attributes keep what the handler had written.
\<close>

fun wait_synack :: "bytes list \<Rightarrow> client \<Rightarrow> client" where
  "wait_synack [] self = self"
| "wait_synack (segment # later) self =
    (if synack_recv self then self
     else wait_synack later (fst (client_lossy_layer_segment_received self segment)))"

text \<open>
  The loop \<open>for i in range(RETRIES)\<close>: wait, then send the SYN again unless the
  SYN+ACK has been recorded. \<open>arrivals\<close> holds the segments of each wait in turn.
\<close>

fun connect_retries :: "nat \<Rightarrow> bytes \<Rightarrow> bytes list list \<Rightarrow> client \<Rightarrow> client" where
  "connect_retries 0 segment arrivals self = self"
| "connect_retries (Suc n) segment arrivals self =
    (let self = wait_synack (case arrivals of [] \<Rightarrow> [] | a # _ \<Rightarrow> a) self
     in if \<not> synack_recv self
        then connect_retries n segment (tl arrivals) (self\<lparr> c_sent := c_sent self @ [segment] \<rparr>)
        else self)"

text \<open>The \<open>else\<close> branch at the end of \<open>connect\<close>: count up, send the ACK.\<close>

definition connect_established :: "client \<Rightarrow> client \<times> outcome" where
  "connect_established self =
    (let self = self\<lparr> c_acknum := c_acknum self + 1 \<rparr>
     in case c_seqnum self of
          None \<Rightarrow> (self, Raised TypeError)
        | Some s \<Rightarrow>
           (let self = self\<lparr> c_seqnum := Some (s + 1) \<rparr>
            in case build_segment_header (s + 1) (c_acknum self) False True False
                      (client_window self) 0 0 of
                 Inl e \<Rightarrow> (self, Raised e)
               | Inr header \<Rightarrow>
                  (case in_cksum header of
                     Inl e \<Rightarrow> (self, Raised e)
                   | Inr checksum \<Rightarrow>
                      (case build_segment_header (s + 1) (c_acknum self) False True False
                              (client_window self) 0 checksum of
                         Inl e \<Rightarrow> (self, Raised e)
                       | Inr header \<Rightarrow>
                           (self\<lparr> c_sent := c_sent self @ [header @ zero_payload],
                                  c_state := ESTABLISHED \<rparr>, Returned PyNone)))))"

text \<open>
  \<open>connect\<close>: \<open>rnd\<close> is the value of \<open>int.from_bytes(urandom(2))\<close>, \<open>RETRIES\<close> the
  constant of constants.py. The method has no \<open>return\<close> statement.
\<close>

definition connect :: "int \<Rightarrow> nat \<Rightarrow> bytes list list \<Rightarrow> client \<Rightarrow> client \<times> outcome" where
  "connect rnd RETRIES arrivals self =
    (let self = self\<lparr> c_seqnum := Some rnd \<rparr>
     in case build_segment_header rnd (c_acknum self) True False False (client_window self) 0 0 of
          Inl e \<Rightarrow> (self, Raised e)
        | Inr header \<Rightarrow>
           (case in_cksum header of
              Inl e \<Rightarrow> (self, Raised e)
            | Inr checksum \<Rightarrow>
               (case build_segment_header rnd (c_acknum self) True False False
                       (client_window self) 0 checksum of
                  Inl e \<Rightarrow> (self, Raised e)
                | Inr header \<Rightarrow>
                   (let segment = header @ zero_payload;
                        self = self\<lparr> c_sent := c_sent self @ [segment], c_state := SYN_SENT \<rparr>;
                        self = connect_retries RETRIES segment arrivals self
                    in if \<not> synack_recv self
                       then (self\<lparr> c_state := CLOSED \<rparr>, Returned PyNone)
                       else connect_established self))))"

section \<open>Server socket (server\_socket.py)\<close>

text \<open>
  The receive buffer is the queue of delivered chunks, head first, bounded by 1000
  entries; \<open>s_sent\<close> lists the segments handed to the lossy layer, oldest first.
\<close>

record server =
  s_state :: BTCPStates
  s_seqnum :: "int option"
  s_acknum :: int
  recvbuf :: "bytes list"
  fin_retries :: "int option"
  fin_timeout :: "real option"
  ack_timeout :: "real option"
  s_window :: int
  s_sent :: "bytes list"

definition server_init :: "int \<Rightarrow> server" where
  "server_init WINDOW =
    \<lparr> s_state = CLOSED, s_seqnum = None, s_acknum = 0, recvbuf = [], fin_retries = None,
      fin_timeout = None, ack_timeout = None, s_window = WINDOW, s_sent = [] \<rparr>"

text \<open>
  \<open>generate_ack\<close>: the first pass builds the header with the default window
  \<open>0x01\<close>, the second with \<open>self.window\<close>. Packing a \<open>seqnum\<close> that is \<open>None\<close> raises
  \<open>struct.error\<close>.
\<close>

definition generate_ack :: "server \<Rightarrow> error + bytes" where
  "generate_ack self =
    (case s_seqnum self of
       None \<Rightarrow> Inl StructError
     | Some seqnum \<Rightarrow>
        (case build_segment_header seqnum (s_acknum self) False True False 1 0 0 of
           Inl e \<Rightarrow> Inl e
         | Inr header \<Rightarrow>
            (case in_cksum header of
               Inl e \<Rightarrow> Inl e
             | Inr checksum \<Rightarrow>
                (case build_segment_header seqnum (s_acknum self) False True False
                        (s_window self) 0 checksum of
                   Inl e \<Rightarrow> Inl e
                 | Inr header \<Rightarrow> Inr (header @ zero_payload)))))"

text \<open>The FIN+ACK segment, built the same way in the CLOSING and ESTABLISHED branches.\<close>

definition build_fin_ack :: "server \<Rightarrow> error + bytes" where
  "build_fin_ack self =
    (case s_seqnum self of
       None \<Rightarrow> Inl StructError
     | Some seqnum \<Rightarrow>
        (case build_segment_header seqnum (s_acknum self) False True True 1 0 0 of
           Inl e \<Rightarrow> Inl e
         | Inr header \<Rightarrow>
            (case in_cksum header of
               Inl e \<Rightarrow> Inl e
             | Inr checksum \<Rightarrow>
                (case build_segment_header seqnum (s_acknum self) False True True 1 0 checksum of
                   Inl e \<Rightarrow> Inl e
                 | Inr header \<Rightarrow> Inr (header @ zero_payload)))))"

text \<open>The flag combination of a received segment, as the five booleans of the source.\<close>

record categories =
  SYNACK :: bool
  SYN :: bool
  ACK :: bool
  FIN :: bool
  NOFLAG :: bool

definition classify :: "bool \<Rightarrow> bool \<Rightarrow> bool \<Rightarrow> categories" where
  "classify syn_set ack_set fin_set =
    (let synack = syn_set \<and> ack_set;
         syn = syn_set \<and> \<not> synack;
         ack = ack_set \<and> \<not> synack;
         fin = fin_set \<and> \<not> syn \<and> \<not> ack;
         noflag = \<not> (syn \<or> ack \<or> fin \<or> synack)
     in \<lparr> SYNACK = synack, SYN = syn, ACK = ack, FIN = fin, NOFLAG = noflag \<rparr>)"

text \<open>The branch for a state other than ESTABLISHED.\<close>

definition server_handshake :: "server \<Rightarrow> header \<Rightarrow> categories \<Rightarrow> server \<times> outcome" where
  "server_handshake self h c =
    (if s_state self = ACCEPTING \<and> SYN c
     then (self\<lparr> s_acknum := h_seqnum h + 1, s_state := SYN_RCVD \<rparr>, Returned PyNone)
     else if s_state self = SYN_RCVD \<and> ACK c
     then (self\<lparr> s_state := ESTABLISHED \<rparr>, Returned PyNone)
     else if s_state self = CLOSING \<and> ACK c
     then (self\<lparr> s_state := CLOSED \<rparr>, Returned PyNone)
     else if s_state self = CLOSING \<and> FIN c
     then (case fin_retries self of
             None \<Rightarrow> (self, Raised TypeError)
           | Some r \<Rightarrow>
               if r \<ge> 10 then (self\<lparr> s_state := CLOSED \<rparr>, Returned PyNone)
               else (case build_fin_ack self of
                       Inl e \<Rightarrow> (self, Raised e)
                     | Inr fin_ack \<Rightarrow>
                         (self\<lparr> s_sent := s_sent self @ [fin_ack], fin_retries := Some (r + 1) \<rparr>,
                          Returned PyNone)))
     else (self, Returned PyNone))"

text \<open>
  The ESTABLISHED branch. A data segment is taken when its seqnum is \<open>acknum + 1\<close>:
  the ACK is generated and sent, then \<open>acknum\<close> is counted up, then the chunk is put
  into the receive buffer unless that holds 1000 chunks already.
\<close>

definition server_established ::
  "real \<Rightarrow> server \<Rightarrow> header \<Rightarrow> categories \<Rightarrow> bytes \<Rightarrow> server \<times> outcome" where
  "server_established now self h c chunk =
    (if FIN c
     then (let self = self\<lparr> s_state := CLOSING, fin_retries := Some 0,
                              fin_timeout := Some (now + 30) \<rparr>
           in case build_fin_ack self of
                Inl e \<Rightarrow> (self, Raised e)
              | Inr fin_ack \<Rightarrow> (self\<lparr> s_sent := s_sent self @ [fin_ack] \<rparr>, Returned PyNone))
     else if NOFLAG c
     then (let self = self\<lparr> ack_timeout := None \<rparr>
           in if h_seqnum h = s_acknum self + 1
              then (case generate_ack self of
                      Inl e \<Rightarrow> (self, Raised e)
                    | Inr ack \<Rightarrow>
                       (let self = self\<lparr> s_sent := s_sent self @ [ack] \<rparr>;
                            self = self\<lparr> s_acknum := s_acknum self + 1 \<rparr>
                        in if length (recvbuf self) < 1000
                           then (self\<lparr> recvbuf := recvbuf self @ [chunk] \<rparr>, Returned PyNone)
                           else (self, Returned PyNone)))
              else (case generate_ack self of
                      Inl e \<Rightarrow> (self, Raised e)
                    | Inr ack \<Rightarrow> (self\<lparr> s_sent := s_sent self @ [ack] \<rparr>, Returned PyNone)))
     else (self, Returned PyNone))"

text \<open>
  \<open>BTCPServerSocket.lossy_layer_segment_received\<close>: the checksum is recomputed over
  the rebuilt header followed by the first \<open>datalen\<close> bytes of the payload.
\<close>

definition server_lossy_layer_segment_received ::
  "real \<Rightarrow> server \<Rightarrow> bytes \<Rightarrow> server \<times> outcome" where
  "server_lossy_layer_segment_received now self segment =
    (if s_state self = CLOSED then (self, Returned PyNone)
     else case unpack_segment_header (take HEADER_SIZE segment) of
            Inl e \<Rightarrow> (self, Raised e)
          | Inr h \<Rightarrow>
             (let chunk = take (nat (h_datalen h)) (drop HEADER_SIZE segment)
              in case build_segment_header (h_seqnum h) (h_acknum h) (h_syn h) (h_ack h) (h_fin h)
                        (h_window h) (h_datalen h) 0 of
                   Inl e \<Rightarrow> (self, Raised e)
                 | Inr hb \<Rightarrow>
                    (case in_cksum (hb @ chunk) of
                       Inl e \<Rightarrow> (self, Raised e)
                     | Inr check \<Rightarrow>
                         if check \<noteq> h_checksum h then (self, Returned PyNone)
                         else (let c = classify (h_syn h) (h_ack h) (h_fin h)
                               in if s_state self \<noteq> ESTABLISHED
                                  then server_handshake self h c
                                  else server_established now self h c chunk))))"

section \<open>Notions used to state the properties\<close>

text \<open>
  The client's verification of a received header: the checksum recomputed over the
  received fields with the checksum field zeroed, as in the first lines of its
  \<open>lossy_layer_segment_received\<close>.
\<close>

definition client_check :: "header \<Rightarrow> error + int" where
  "client_check h =
    (case build_segment_header (h_seqnum h) (h_acknum h) (h_syn h) (h_ack h) (h_fin h)
            (h_window h) (h_datalen h) 0 of
       Inl e \<Rightarrow> Inl e
     | Inr hb \<Rightarrow> in_cksum hb)"

definition client_checksum_ok :: "bytes \<Rightarrow> header \<Rightarrow> bool" where
  "client_checksum_ok segment h =
    (unpack_segment_header (take HEADER_SIZE segment) = Inr h \<and>
     client_check h = Inr (h_checksum h))"

text \<open>The server's verification: the rebuilt header followed by the chunk.\<close>

definition server_check :: "bytes \<Rightarrow> header \<Rightarrow> error + int" where
  "server_check segment h =
    (case build_segment_header (h_seqnum h) (h_acknum h) (h_syn h) (h_ack h) (h_fin h)
            (h_window h) (h_datalen h) 0 of
       Inl e \<Rightarrow> Inl e
     | Inr hb \<Rightarrow> in_cksum (hb @ take (nat (h_datalen h)) (drop HEADER_SIZE segment)))"

definition server_checksum_ok :: "bytes \<Rightarrow> header \<Rightarrow> bool" where
  "server_checksum_ok segment h =
    (unpack_segment_header (take HEADER_SIZE segment) = Inr h \<and>
     server_check segment h = Inr (h_checksum h))"

text \<open>
  The checksum in the words of the specification, for comparison with \<open>in_cksum\<close>:
  sum the 16-bit big-endian words with end-around carry, adding any overflow past 16
  bits back into the low bits, and return \<open>0xFFFF - sum\<close>.
\<close>

definition end_around_add :: "int \<Rightarrow> int \<Rightarrow> int" where
  "end_around_add s w = (let t = s + w in t mod 2 ^ 16 + t div 2 ^ 16)"

definition spec_checksum :: "bytes \<Rightarrow> int" where
  "spec_checksum segment = 0xFFFF - foldl end_around_add 0 (iter_unpack_H segment)"

text \<open>What stays fixed while \<open>connect\<close> waits in SYN\_SENT.\<close>

definition syn_sent_inv :: "int \<Rightarrow> int \<Rightarrow> client \<Rightarrow> bool" where
  "syn_sent_inv S w self =
    (c_state self = SYN_SENT \<and> c_seqnum self = Some S \<and> client_window self = w \<and>
     in_H (c_acknum self))"

section \<open>Codec lemmas\<close>

lemmas codec_defs = build_segment_header_def in_H_def in_B_def pack_H_def pack_B_def
  unpack_H_def in_cksum_def cksum_step_def HEADER_SIZE_def

lemma uint_byte_of_int: "in_B v \<Longrightarrow> uint (word_of_int v :: byte) = v"
  unfolding in_B_def by (simp add: uint_word_of_int take_bit_eq_mod)

lemma unpack_pack_H:
  "in_H v \<Longrightarrow> unpack_H (word_of_int (v div 256)) (word_of_int (v mod 256)) = v"
proof -
  assume "in_H v"
  then have "in_B (v div 256)" "in_B (v mod 256)"
    unfolding in_H_def in_B_def by auto
  then show ?thesis unfolding unpack_H_def by (simp add: uint_byte_of_int)
qed

lemma uint_byte_range: "in_B (uint (b :: byte))"
  unfolding in_B_def using uint_lt2p [of b] by simp

lemma unpack_H_range: "in_H (unpack_H hi lo)"
  using uint_byte_range [of hi] uint_byte_range [of lo]
  unfolding in_H_def in_B_def unpack_H_def by simp

lemma unpack_header_ranges:
  assumes "unpack_segment_header bs = Inr h"
  shows "in_H (h_seqnum h) \<and> in_H (h_acknum h) \<and> in_B (h_window h) \<and> in_H (h_datalen h)
     \<and> in_H (h_checksum h) \<and> length bs = 10"
proof -
  obtain s1 s0 a1 a0 f w l1 l0 c1 c0 where "bs = [s1, s0, a1, a0, f, w, l1, l0, c1, c0]"
    using assms by (cases bs rule: unpack_segment_header.cases) simp_all
  with assms show ?thesis by (auto simp: Let_def unpack_H_range uint_byte_range)
qed

lemma build_ok:
  assumes "in_H s" "in_H a" "in_B w" "in_H l" "in_H c"
  shows "\<exists>hb. build_segment_header s a syn ack fin w l c = Inr hb"
  using assms unfolding build_segment_header_def
  by (cases syn; cases ack; cases fin) (simp_all add: in_B_def)

lemma unpack_build:
  assumes "build_segment_header s a syn ack fin w l c = Inr hb"
  shows "unpack_segment_header hb =
    Inr \<lparr> h_seqnum = s, h_acknum = a, h_syn = syn, h_ack = ack, h_fin = fin,
           h_window = w, h_datalen = l, h_checksum = c \<rparr>"
proof -
  from assms have r: "in_H s" "in_H a" "in_B w" "in_H l" "in_H c"
    unfolding build_segment_header_def by (simp_all add: Let_def split: if_splits)
  show ?thesis
    using assms r unfolding build_segment_header_def pack_H_def pack_B_def
    by (cases syn; cases ack; cases fin)
       (auto simp add: unpack_pack_H uint_byte_of_int in_B_def)
qed

lemma cksum_step_bounds:
  "0 \<le> c \<Longrightarrow> c \<le> 65536 \<Longrightarrow> in_H b \<Longrightarrow> 0 \<le> cksum_step c b \<and> cksum_step c b \<le> 65536"
  unfolding cksum_step_def in_H_def by (simp add: Let_def)

lemma cksum_step_pos: "0 < c \<Longrightarrow> 0 \<le> b \<Longrightarrow> 0 < cksum_step c b"
  unfolding cksum_step_def by (simp add: Let_def)

lemma cksum_step_pos2: "0 \<le> c \<Longrightarrow> 0 < b \<Longrightarrow> 0 < cksum_step c b"
  unfolding cksum_step_def by (simp add: Let_def)

lemma cksum_step_zero: "0 \<le> c \<Longrightarrow> c \<le> 65536 \<Longrightarrow> cksum_step c 0 = c"
  by (simp add: cksum_step_def)

lemma foldl_cksum_bounds:
  "0 \<le> c \<Longrightarrow> c \<le> 65536 \<Longrightarrow> list_all in_H ws \<Longrightarrow>
    0 \<le> foldl cksum_step c ws \<and> foldl cksum_step c ws \<le> 65536"
proof (induction ws arbitrary: c)
  case Nil
  then show ?case by simp
next
  case (Cons w ws)
  then show ?case using cksum_step_bounds [of c w] by simp
qed

lemma foldl_cksum_pos:
  "0 < c \<Longrightarrow> c \<le> 65536 \<Longrightarrow> list_all in_H ws \<Longrightarrow> 0 < foldl cksum_step c ws"
proof (induction ws arbitrary: c)
  case Nil
  then show ?case by simp
next
  case (Cons w ws)
  have "0 < cksum_step c w"
    using Cons.prems cksum_step_pos [of c w] by (simp add: in_H_def)
  moreover have "cksum_step c w \<le> 65536"
    using Cons.prems cksum_step_bounds [of c w] by simp
  ultimately show ?case using Cons by simp
qed

text \<open>The five words of a built header.\<close>

lemma build_words:
  assumes "build_segment_header s a syn ack fin w l c = Inr hb"
  shows "iter_unpack_H hb =
      [s, a, (4 * of_bool syn + 2 * of_bool ack + of_bool fin) * 256 + w, l, c]
     \<and> length hb = 10 \<and> in_H s \<and> in_H a \<and> in_B w \<and> in_H l \<and> in_H c"
proof -
  let ?f = "4 * of_bool syn + 2 * of_bool ack + of_bool fin :: int"
  have fb: "in_B ?f" unfolding in_B_def by simp
  from assms have r: "in_H s" "in_H a" "in_B w" "in_H l" "in_H c"
    unfolding build_segment_header_def by (simp_all add: Let_def split: if_splits)
  from assms r have hb: "hb = pack_H s @ pack_H a @ pack_B ?f @ pack_B w @ pack_H l @ pack_H c"
    unfolding build_segment_header_def
    by (cases syn; cases ack; cases fin) (simp_all add: Let_def split: if_splits)
  have "unpack_H (word_of_int ?f) (word_of_int w) = ?f * 256 + w"
    unfolding unpack_H_def using uint_byte_of_int [OF fb] uint_byte_of_int [OF r(3)] by simp
  then show ?thesis
    using r unfolding hb pack_H_def pack_B_def by (simp add: unpack_pack_H)
qed

text \<open>A header with a flag set has a checksum that fits the 16-bit field.\<close>

lemma flagged_header_cksum:
  assumes "build_segment_header s a syn ack fin w l 0 = Inr hb" and "syn \<or> ack \<or> fin"
  shows "\<exists>c. in_cksum hb = Inr c \<and> in_H c"
proof -
  let ?f = "4 * of_bool syn + 2 * of_bool ack + of_bool fin :: int"
  note bw = build_words [OF assms(1)]
  have f1: "1 \<le> ?f" "?f \<le> 7" using assms(2) by auto
  have w: "in_B w" using bw by simp
  have fw: "in_H (?f * 256 + w)" "0 < ?f * 256 + w"
    using f1 w unfolding in_H_def in_B_def by auto
  have 1: "0 \<le> cksum_step 0 s \<and> cksum_step 0 s \<le> 65536"
    using cksum_step_bounds [of 0 s] bw by simp
  have 2: "0 \<le> cksum_step (cksum_step 0 s) a \<and> cksum_step (cksum_step 0 s) a \<le> 65536"
    using cksum_step_bounds [of "cksum_step 0 s" a] 1 bw by simp
  let ?c3 = "cksum_step (cksum_step (cksum_step 0 s) a) (?f * 256 + w)"
  have 3: "0 < ?c3 \<and> ?c3 \<le> 65536"
    using cksum_step_bounds [of "cksum_step (cksum_step 0 s) a" "?f * 256 + w"]
      cksum_step_pos2 [of "cksum_step (cksum_step 0 s) a" "?f * 256 + w"] 2 fw by simp
  have "list_all in_H [l, 0]" using bw by (simp add: in_H_def)
  then have 4: "0 < foldl cksum_step ?c3 [l, 0] \<and> foldl cksum_step ?c3 [l, 0] \<le> 65536"
    using foldl_cksum_pos [of ?c3 "[l, 0]"] foldl_cksum_bounds [of ?c3 "[l, 0]"] 3 by simp
  have "foldl cksum_step 0 (iter_unpack_H hb) = foldl cksum_step ?c3 [l, 0]"
    using bw by simp
  then show ?thesis
    using 4 bw unfolding in_cksum_def in_H_def by auto
qed

lemma two_pass_ok:
  assumes "in_H s" "in_H a" "in_B w" "in_H l" "syn \<or> ack \<or> fin"
  shows "\<exists>hb c hb'. build_segment_header s a syn ack fin w l 0 = Inr hb \<and>
     in_cksum hb = Inr c \<and> build_segment_header s a syn ack fin w l c = Inr hb'"
proof -
  have "in_H 0" by (simp add: in_H_def)
  then obtain hb where 1: "build_segment_header s a syn ack fin w l 0 = Inr hb"
    using build_ok [OF assms(1-4), of 0 syn ack fin] by blast
  obtain c where 2: "in_cksum hb = Inr c" "in_H c"
    using flagged_header_cksum [OF 1 assms(5)] by blast
  obtain hb' where "build_segment_header s a syn ack fin w l c = Inr hb'"
    using build_ok [OF assms(1-4) 2(2), of syn ack fin] by blast
  with 1 2 show ?thesis by blast
qed

lemma rebuild_ok:
  assumes "unpack_segment_header bs = Inr h"
  shows "\<exists>hb. build_segment_header (h_seqnum h) (h_acknum h) (h_syn h) (h_ack h) (h_fin h)
            (h_window h) (h_datalen h) 0 = Inr hb \<and> length hb = 10"
proof -
  have "in_H 0" by (simp add: in_H_def)
  then obtain hb where
    hb: "build_segment_header (h_seqnum h) (h_acknum h) (h_syn h) (h_ack h) (h_fin h)
            (h_window h) (h_datalen h) 0 = Inr hb"
    using build_ok [of "h_seqnum h" "h_acknum h" "h_window h" "h_datalen h" 0]
      unpack_header_ranges [OF assms] by blast
  then show ?thesis using build_words [OF hb] by simp
qed

text \<open>
  A segment built in two passes from the same field values passes the client's check,
  whatever follows the header.
\<close>

lemma two_pass_self_validates:
  assumes "build_segment_header s a syn ack fin w l 0 = Inr hb"
    and "in_cksum hb = Inr c"
    and "build_segment_header s a syn ack fin w l c = Inr hb'"
  shows "client_checksum_ok (hb' @ payload)
           \<lparr> h_seqnum = s, h_acknum = a, h_syn = syn, h_ack = ack, h_fin = fin,
              h_window = w, h_datalen = l, h_checksum = c \<rparr>"
  using unpack_build [OF assms(3)] build_words [OF assms(3)] assms(1,2)
  unfolding client_checksum_ok_def client_check_def HEADER_SIZE_def by simp

section \<open>Lemmas on the client\<close>

lemma client_check_total:
  assumes "unpack_segment_header bs = Inr h"
  shows "\<exists>c. client_check h = Inr c"
proof -
  obtain hb where
    "build_segment_header (h_seqnum h) (h_acknum h) (h_syn h) (h_ack h) (h_fin h)
       (h_window h) (h_datalen h) 0 = Inr hb" "length hb = 10"
    using rebuild_ok [OF assms] by blast
  then show ?thesis unfolding client_check_def in_cksum_def by auto
qed

text \<open>After the checksum has matched, the client's handler goes by the state alone.\<close>

lemma client_valid_dispatch:
  assumes "client_checksum_ok segment h" "c_state self \<noteq> CLOSED"
  shows "client_lossy_layer_segment_received self segment =
    (if c_state self = SYN_SENT then client_syn_sent self h
     else if c_state self = FIN_SENT then client_fin_sent self h
     else if c_state self = ESTABLISHED then client_established self h
     else (self, Returned PyNone))"
proof -
  from assms(1) have u: "unpack_segment_header (take HEADER_SIZE segment) = Inr h"
    and c: "client_check h = Inr (h_checksum h)"
    unfolding client_checksum_ok_def by simp_all
  from c obtain hb where
    b: "build_segment_header (h_seqnum h) (h_acknum h) (h_syn h) (h_ack h) (h_fin h)
          (h_window h) (h_datalen h) 0 = Inr hb"
    and k: "in_cksum hb = Inr (h_checksum h)"
    unfolding client_check_def by (auto split: sum.splits)
  show ?thesis
    unfolding client_lossy_layer_segment_received_def
    using assms(2) by (simp add: u b k)
qed

text \<open>A checksum that does not match: the client drops the segment.\<close>

lemma client_discards_corrupt:
  assumes "unpack_segment_header (take HEADER_SIZE segment) = Inr h"
    and "client_check h = Inr check" and "check \<noteq> h_checksum h"
  shows "client_lossy_layer_segment_received self segment = (self, Returned PyNone)"
proof -
  from assms(2) obtain hb where
    b: "build_segment_header (h_seqnum h) (h_acknum h) (h_syn h) (h_ack h) (h_fin h)
          (h_window h) (h_datalen h) 0 = Inr hb"
    and k: "in_cksum hb = Inr check"
    unfolding client_check_def by (auto split: sum.splits)
  show ?thesis
    unfolding client_lossy_layer_segment_received_def
    using assms(3) by (simp add: assms(1) b k)
qed

text \<open>
  The clean-up loop stops at the first entry whose seqnum is not below the
  acknowledged number, and runs off the end of the list when there is none.
\<close>

lemma scan_in_transit_char:
  "i \<le> length xs \<Longrightarrow>
   scan_in_transit N xs i =
     (if list_all (\<lambda>e. fst (snd e) < N) (drop i xs) then Inl IndexError
      else Inr (i + length (takeWhile (\<lambda>e. fst (snd e) < N) (drop i xs))))"
proof (induction N xs i rule: scan_in_transit.induct)
  case (1 acked xs i)
  show ?case
  proof (cases "i < length xs")
    case False
    then show ?thesis using "1.prems" by simp
  next
    case True
    obtain t s seg where e: "xs ! i = (t, s, seg)" by (cases "xs ! i") auto
    have d: "drop i xs = (t, s, seg) # drop (Suc i) xs"
      using True e by (simp add: Cons_nth_drop_Suc [symmetric])
    show ?thesis
    proof (cases "acked > s")
      case False
      then show ?thesis using True e d by simp
    next
      case gt: True
      have "scan_in_transit acked xs (i + 1) =
        (if list_all (\<lambda>e. fst (snd e) < acked) (drop (i + 1) xs) then Inl IndexError
         else Inr (i + 1 + length (takeWhile (\<lambda>e. fst (snd e) < acked) (drop (i + 1) xs))))"
        using "1.IH" [OF True e [symmetric] refl gt] True by simp
      then show ?thesis using True e d gt by simp
    qed
  qed
qed

lemma established_cumulative_ack:
  assumes "last_rec_ack self < h_acknum h" "h_ack h"
  shows "client_established self h =
    (if list_all (\<lambda>e. fst (snd e) < h_acknum h) (segments_in_transit self)
     then (self\<lparr> server_window := h_window h, last_rec_ack := h_acknum h \<rparr>, Raised IndexError)
     else (self\<lparr> server_window := h_window h, last_rec_ack := h_acknum h,
                 segments_in_transit :=
                   dropWhile (\<lambda>e. fst (snd e) < h_acknum h) (segments_in_transit self) \<rparr>,
           Returned PyNone))"
  using assms unfolding client_established_def
  by (simp add: Let_def scan_in_transit_char dropWhile_eq_drop del: scan_in_transit.simps)

text \<open>The wait of \<open>connect\<close> keeps the state, the seqnum and the window.\<close>

lemma handler_syn_sent_inv:
  assumes "syn_sent_inv S w self"
  shows "syn_sent_inv S w (fst (client_lossy_layer_segment_received self segment))"
proof -
  have st: "c_state self = SYN_SENT" using assms by (simp add: syn_sent_inv_def)
  show ?thesis
  proof (cases "unpack_segment_header (take HEADER_SIZE segment)")
    case (Inl e)
    then show ?thesis using assms st by (simp add: client_lossy_layer_segment_received_def)
  next
    case (Inr h)
    have "in_H (h_seqnum h)" using unpack_header_ranges [OF Inr] by simp
    then have "syn_sent_inv S w (fst (client_syn_sent self h))"
      using assms unfolding client_syn_sent_def syn_sent_inv_def by simp
    then show ?thesis
      using assms st Inr
      by (simp add: client_lossy_layer_segment_received_def split: sum.splits)
  qed
qed

lemma wait_synack_inv:
  "syn_sent_inv S w self \<Longrightarrow> syn_sent_inv S w (wait_synack segs self)"
proof (induction segs arbitrary: self)
  case Nil
  then show ?case by simp
next
  case (Cons seg segs)
  then show ?case using handler_syn_sent_inv [of S w self seg] by simp
qed

lemma connect_retries_inv:
  "syn_sent_inv S w self \<Longrightarrow> syn_sent_inv S w (connect_retries n segment arrivals self)"
proof (induction n arbitrary: arrivals self)
  case 0
  then show ?case by simp
next
  case (Suc n)
  let ?s = "wait_synack (case arrivals of [] \<Rightarrow> [] | a # x \<Rightarrow> a) self"
  have w: "syn_sent_inv S w ?s" using Suc.prems by (rule wait_synack_inv)
  then have "syn_sent_inv S w (?s\<lparr> c_sent := c_sent ?s @ [segment] \<rparr>)"
    by (simp add: syn_sent_inv_def)
  then show ?case using Suc.IH w by (simp add: Let_def)
qed

lemma connect_retries_numeral:
  "connect_retries (numeral k) segment arrivals self =
    (let self = wait_synack (case arrivals of [] \<Rightarrow> [] | a # _ \<Rightarrow> a) self
     in if \<not> synack_recv self
        then connect_retries (pred_numeral k) segment (tl arrivals)
               (self\<lparr> c_sent := c_sent self @ [segment] \<rparr>)
        else self)"
  by (simp add: numeral_eq_Suc)

lemma connect_established_acknum:
  "c_acknum (fst (connect_established self)) = c_acknum self + 1"
  unfolding connect_established_def
  by (simp add: Let_def split: option.splits sum.splits)

lemma connect_established_flag:
  "synack_recv (fst (connect_established self)) = synack_recv self"
  unfolding connect_established_def
  by (simp add: Let_def split: option.splits sum.splits)

lemma connect_established_ok:
  assumes "c_seqnum self = Some S" "in_H (S + 1)" "in_H (c_acknum self + 1)"
    and "in_B (client_window self)"
  shows "snd (connect_established self) = Returned PyNone \<and>
         c_state (fst (connect_established self)) = ESTABLISHED"
proof -
  have "in_H 0" by (simp add: in_H_def)
  obtain hb c hb' where
    "build_segment_header (S + 1) (c_acknum self + 1) False True False
       (client_window self) 0 0 = Inr hb"
    "in_cksum hb = Inr c"
    "build_segment_header (S + 1) (c_acknum self + 1) False True False
       (client_window self) 0 c = Inr hb'"
    using two_pass_ok [OF assms(2,3,4) \<open>in_H 0\<close>, of False True False] by blast
  then show ?thesis
    using assms(1) unfolding connect_established_def by (simp add: Let_def)
qed

lemmas connect_defs = connect_def connect_retries_numeral
  client_lossy_layer_segment_received_def client_syn_sent_def connect_established_def

section \<open>Lemmas on the server\<close>

lemma server_valid_dispatch:
  assumes "server_checksum_ok segment h" "s_state self \<noteq> CLOSED"
  shows "server_lossy_layer_segment_received now self segment =
    (if s_state self \<noteq> ESTABLISHED
     then server_handshake self h (classify (h_syn h) (h_ack h) (h_fin h))
     else server_established now self h (classify (h_syn h) (h_ack h) (h_fin h))
            (take (nat (h_datalen h)) (drop HEADER_SIZE segment)))"
proof -
  from assms(1) have u: "unpack_segment_header (take HEADER_SIZE segment) = Inr h"
    and c: "server_check segment h = Inr (h_checksum h)"
    unfolding server_checksum_ok_def by simp_all
  from c obtain hb where
    b: "build_segment_header (h_seqnum h) (h_acknum h) (h_syn h) (h_ack h) (h_fin h)
          (h_window h) (h_datalen h) 0 = Inr hb"
    and k: "in_cksum (hb @ take (nat (h_datalen h)) (drop HEADER_SIZE segment))
              = Inr (h_checksum h)"
    unfolding server_check_def by (auto split: sum.splits)
  show ?thesis
    unfolding server_lossy_layer_segment_received_def
    using assms(2) by (simp add: u b k Let_def)
qed

text \<open>A checksum that is computed and does not match: the server drops the segment.\<close>

lemma server_discards_corrupt:
  assumes "unpack_segment_header (take HEADER_SIZE segment) = Inr h"
    and "server_check segment h = Inr check" and "check \<noteq> h_checksum h"
  shows "server_lossy_layer_segment_received now self segment = (self, Returned PyNone)"
proof -
  from assms(2) obtain hb where
    b: "build_segment_header (h_seqnum h) (h_acknum h) (h_syn h) (h_ack h) (h_fin h)
          (h_window h) (h_datalen h) 0 = Inr hb"
    and k: "in_cksum (hb @ take (nat (h_datalen h)) (drop HEADER_SIZE segment)) = Inr check"
    unfolding server_check_def by (auto split: sum.splits)
  show ?thesis
    unfolding server_lossy_layer_segment_received_def
    using assms(3) by (simp add: assms(1) b k Let_def)
qed

text \<open>A chunk of odd length: the server's checksum computation raises.\<close>

lemma server_odd_length_raises:
  assumes "s_state self \<noteq> CLOSED"
    and "unpack_segment_header (take HEADER_SIZE segment) = Inr h"
    and "odd (length (take (nat (h_datalen h)) (drop HEADER_SIZE segment)))"
  shows "server_lossy_layer_segment_received now self segment = (self, Raised StructError)"
proof -
  obtain hb where
    "build_segment_header (h_seqnum h) (h_acknum h) (h_syn h) (h_ack h) (h_fin h)
       (h_window h) (h_datalen h) 0 = Inr hb" "length hb = 10"
    using rebuild_ok [OF assms(2)] by blast
  then show ?thesis
    using assms unfolding server_lossy_layer_segment_received_def in_cksum_def
    by (auto simp add: Let_def)
qed

lemma generate_ack_ack_timeout:
  "generate_ack (self\<lparr> ack_timeout := t \<rparr>) = generate_ack self"
  by (simp add: generate_ack_def cong: option.case_cong sum.case_cong)

text \<open>
  The data path in ESTABLISHED: the segment is taken exactly when its seqnum is
  \<open>acknum + 1\<close>; the ACK that goes out is the one generated from the state before
  \<open>acknum\<close> is counted up.
\<close>

lemma server_data_path:
  assumes "s_state self = ESTABLISHED" and "server_checksum_ok segment h"
    and "\<not> h_syn h" "\<not> h_ack h" "\<not> h_fin h"
    and "generate_ack self = Inr ack"
  shows "server_lossy_layer_segment_received now self segment =
    (if h_seqnum h = s_acknum self + 1
     then (self\<lparr> ack_timeout := None, s_sent := s_sent self @ [ack],
                 s_acknum := s_acknum self + 1,
                 recvbuf := (if length (recvbuf self) < 1000
                             then recvbuf self @ [take (nat (h_datalen h)) (drop HEADER_SIZE segment)]
                             else recvbuf self) \<rparr>, Returned PyNone)
     else (self\<lparr> ack_timeout := None, s_sent := s_sent self @ [ack] \<rparr>, Returned PyNone))"
proof -
  have "s_state self \<noteq> CLOSED" using assms(1) by simp
  note d = server_valid_dispatch [OF assms(2) this, of now]
  have c: "classify (h_syn h) (h_ack h) (h_fin h) =
      \<lparr> SYNACK = False, SYN = False, ACK = False, FIN = False, NOFLAG = True \<rparr>"
    using assms(3-5) by (simp add: classify_def)
  show ?thesis
    unfolding d c server_established_def
    using assms(1,6) by (simp add: Let_def generate_ack_ack_timeout)
qed

lemma cksum_step_window:
  assumes "0 \<le> x" "x \<le> 65536" "in_B w" "w \<noteq> 1"
  shows "cksum_step x (512 + 1) \<noteq> cksum_step x (512 + w)"
  using assms unfolding cksum_step_def in_B_def by (auto simp: Let_def)

text \<open>
  An ACK of \<open>generate_ack\<close> whose window is not 1 fails the client's check: the
  checksum was computed over the default window.
\<close>

lemma generate_ack_mismatch:
  assumes "generate_ack self = Inr seg" and "s_window self \<noteq> 1"
  shows "\<exists>h c. unpack_segment_header (take HEADER_SIZE seg) = Inr h
           \<and> h_window h = s_window self \<and> client_check h = Inr c \<and> c \<noteq> h_checksum h"
proof -
  let ?a = "s_acknum self" and ?w = "s_window self"
  from assms(1) obtain s hb1 c hb2 where
    s: "s_seqnum self = Some s"
    and b1: "build_segment_header s ?a False True False 1 0 0 = Inr hb1"
    and k1: "in_cksum hb1 = Inr c"
    and b2: "build_segment_header s ?a False True False ?w 0 c = Inr hb2"
    and seg: "seg = hb2 @ zero_payload"
    unfolding generate_ack_def by (auto split: option.splits sum.splits)
  let ?h = "\<lparr> h_seqnum = s, h_acknum = ?a, h_syn = False, h_ack = True, h_fin = False,
              h_window = ?w, h_datalen = 0, h_checksum = c \<rparr>"
  note w1 = build_words [OF b1] and w2 = build_words [OF b2]
  have u: "unpack_segment_header (take HEADER_SIZE seg) = Inr ?h"
    using unpack_build [OF b2] w2 unfolding seg HEADER_SIZE_def by simp
  have "in_H 0" by (simp add: in_H_def)
  then obtain hb3 where b3: "build_segment_header s ?a False True False ?w 0 0 = Inr hb3"
    using build_ok [of s ?a ?w 0 0 False True False] w2 by blast
  note w3 = build_words [OF b3]
  let ?x = "cksum_step (cksum_step 0 s) ?a"
  have x: "0 \<le> ?x \<and> ?x \<le> 65536"
    using cksum_step_bounds [of 0 s] cksum_step_bounds [of "cksum_step 0 s" ?a] w2 by simp
  have y: "0 \<le> cksum_step ?x v \<and> cksum_step ?x v \<le> 65536" if "in_H v" for v
    using cksum_step_bounds [of ?x v] x that by simp
  have f: "foldl cksum_step 0 [s, ?a, v, 0, 0] = cksum_step ?x v" if "in_H v" for v
    using y [OF that] by (simp add: cksum_step_zero)
  have v1: "in_H (512 + 1)" by (simp add: in_H_def)
  have v2: "in_H (512 + ?w)" using w2 by (simp add: in_H_def in_B_def)
  have c: "c = 65536 - cksum_step ?x (512 + 1)"
    using k1 w1 f [OF v1] unfolding in_cksum_def by (auto split: if_splits)
  have c3: "in_cksum hb3 = Inr (65536 - cksum_step ?x (512 + ?w))"
    using w3 f [OF v2] unfolding in_cksum_def by auto
  have "cksum_step ?x (512 + 1) \<noteq> cksum_step ?x (512 + ?w)"
    using cksum_step_window [of ?x ?w] x w2 assms(2) by simp
  then have "client_check ?h = Inr (65536 - cksum_step ?x (512 + ?w)) \<and>
       65536 - cksum_step ?x (512 + ?w) \<noteq> h_checksum ?h"
    unfolding client_check_def using b3 c3 c by simp
  with u show ?thesis by (intro exI [of _ ?h]) auto
qed

section \<open>The claims\<close>

subsection \<open>Client: cumulative acknowledgement\<close>

text \<open>
  Claim C1 says that in ESTABLISHED an ACK whose acknum N is above the last recorded
  cumulative ack advances it to N and removes exactly the head entries of the
  in-flight list with seqnum below N, also when every entry, or no entry, has seqnum
  below N. The code misses that case: the clean-up loop reads one entry past the end
  of the list. With the single in-flight segment 5 and a valid ACK with acknum 6, and
  likewise with an empty list, the handler raises \<open>IndexError\<close> after it has stored
  the new cumulative ack, and the list is left as it was.
\<close>

theorem cumulative_ack_runs_off_the_list:
  "client_lossy_layer_segment_received
     ((client_init 100)\<lparr> c_state := ESTABLISHED, c_seqnum := Some 6, last_rec_ack := 5,
        segments_in_transit :=
          [(0, 5, [0, 5, 0, 0, 0, 100, 0, 2, 151, 44] @ [104, 105] @ replicate 1006 0)] \<rparr>)
     ([0, 9, 0, 6, 2, 100, 0, 0, 253, 141] @ zero_payload)
   = ((client_init 100)\<lparr> c_state := ESTABLISHED, c_seqnum := Some 6, last_rec_ack := 6,
        segments_in_transit :=
          [(0, 5, [0, 5, 0, 0, 0, 100, 0, 2, 151, 44] @ [104, 105] @ replicate 1006 0)] \<rparr>,
      Raised IndexError)
   \<and> client_lossy_layer_segment_received
     ((client_init 100)\<lparr> c_state := ESTABLISHED, c_seqnum := Some 6, last_rec_ack := 5 \<rparr>)
     ([0, 9, 0, 6, 2, 100, 0, 0, 253, 141] @ zero_payload)
   = ((client_init 100)\<lparr> c_state := ESTABLISHED, c_seqnum := Some 6, last_rec_ack := 6 \<rparr>,
      Raised IndexError)"
  by (simp add: client_lossy_layer_segment_received_def client_init_def codec_defs
        client_established_def)

subsection \<open>Server: the data path\<close>

text \<open>
  Claim C2 says that on accepting the in-order data segment the server sends a pure
  ACK whose acknum field is the new, advanced acknum. The code generates and sends the
  ACK before it counts \<open>acknum\<close> up: with acknum 4 and the valid data segment 5 the
  server takes the segment, stores its two payload bytes and ends with acknum 5, but
  the ACK it has sent carries acknum 4.
\<close>

theorem data_ack_carries_old_acknum:
  "server_lossy_layer_segment_received 0
     ((server_init 100)\<lparr> s_state := ESTABLISHED, s_seqnum := Some 9, s_acknum := 4 \<rparr>)
     ([0, 5, 0, 0, 0, 100, 0, 2, 151, 44] @ [104, 105] @ replicate 1006 0)
   = ((server_init 100)\<lparr> s_state := ESTABLISHED, s_seqnum := Some 9, s_acknum := 5,
         recvbuf := [[104, 105]],
         s_sent := [[0, 9, 0, 4, 2, 100, 0, 0, 253, 242] @ zero_payload] \<rparr>, Returned PyNone)
   \<and> unpack_segment_header [0, 9, 0, 4, 2, 100, 0, 0, 253, 242]
   = Inr \<lparr> h_seqnum = 9, h_acknum = 4, h_syn = False, h_ack = True, h_fin = False,
            h_window = 100, h_datalen = 0, h_checksum = 65010 \<rparr>"
  by (simp add: server_lossy_layer_segment_received_def server_init_def codec_defs
        server_established_def classify_def generate_ack_def)

subsection \<open>The checksum function\<close>

text \<open>
  Claim C3 says that on a non-empty string of even length \<open>in_cksum\<close> returns the one's
  complement of the end-around-carry sum of the 16-bit words, a value in 0..0xFFFF.
  The code subtracts from \<open>2 ** 16\<close> and folds only above \<open>2 ** 16\<close>: on the two zero
  bytes it returns 65536, which is no 16-bit value, and on the bytes 00 01 it returns
  65535 where the one's complement of the sum is 65534.
\<close>

theorem in_cksum_off_by_one:
  "in_cksum [0, 0] = Inr 65536 \<and> \<not> in_H 65536
   \<and> in_cksum [0, 1] = Inr 65535 \<and> spec_checksum [0, 1] = 65534"
  by (simp add: codec_defs spec_checksum_def end_around_add_def)

subsection \<open>The two-pass build\<close>

text \<open>
  Claim C4 says that every segment built in two passes validates at the receiver, in
  particular the ACK of \<open>generate_ack\<close> for every advertised window. \<open>generate_ack\<close>
  computes the checksum over a header with the default window 1 and then packs
  \<open>self.window\<close>: with window 100 the ACK carries the checksum 65010, the client
  recomputes 64911 over the received fields, and drops the ACK although its acknum 4
  is above the recorded cumulative ack.
\<close>

theorem generate_ack_fails_verification:
  "generate_ack ((server_init 100)\<lparr> s_state := ESTABLISHED, s_seqnum := Some 9, s_acknum := 4 \<rparr>)
     = Inr ([0, 9, 0, 4, 2, 100, 0, 0, 253, 242] @ zero_payload)
   \<and> unpack_segment_header (take HEADER_SIZE ([0, 9, 0, 4, 2, 100, 0, 0, 253, 242] @ zero_payload))
     = Inr \<lparr> h_seqnum = 9, h_acknum = 4, h_syn = False, h_ack = True, h_fin = False,
              h_window = 100, h_datalen = 0, h_checksum = 65010 \<rparr>
   \<and> client_check \<lparr> h_seqnum = 9, h_acknum = 4, h_syn = False, h_ack = True, h_fin = False,
                     h_window = 100, h_datalen = 0, h_checksum = 65010 \<rparr> = Inr 64911
   \<and> client_lossy_layer_segment_received
       ((client_init 100)\<lparr> c_state := ESTABLISHED, c_seqnum := Some 6, last_rec_ack := 3 \<rparr>)
       ([0, 9, 0, 4, 2, 100, 0, 0, 253, 242] @ zero_payload)
     = ((client_init 100)\<lparr> c_state := ESTABLISHED, c_seqnum := Some 6, last_rec_ack := 3 \<rparr>,
        Returned PyNone)"
  by (simp add: generate_ack_def server_init_def client_init_def codec_defs client_check_def
        client_lossy_layer_segment_received_def)

subsection \<open>Corrupted segments\<close>

text \<open>
  Claim C5 says that a segment whose checksum does not match is dropped silently by
  both endpoints, with no error raised, for every value of the length field. The
  server computes the checksum over the header and the first \<open>length\<close> payload bytes:
  a segment whose length field is 1 gives it eleven bytes, and \<open>in_cksum\<close> raises
  \<open>struct.error\<close> instead of returning a value to compare.
\<close>

theorem server_raises_on_odd_length:
  "server_lossy_layer_segment_received 0
     ((server_init 100)\<lparr> s_state := ESTABLISHED, s_seqnum := Some 9, s_acknum := 4 \<rparr>)
     ([0, 5, 0, 0, 0, 100, 0, 1, 0, 0] @ [104] @ replicate 1007 0)
   = ((server_init 100)\<lparr> s_state := ESTABLISHED, s_seqnum := Some 9, s_acknum := 4 \<rparr>,
      Raised StructError)"
  by (simp add: server_lossy_layer_segment_received_def server_init_def codec_defs)

subsection \<open>Handshake determinism\<close>

text \<open>
  Claim C6. In SYN\_SENT with initial sequence number S, a checksum-valid segment is
  recorded as the SYN+ACK (and the peer's seqnum and window are stored) if and only
  if both its SYN and ACK flags are set and its acknum is S + 1; every other
  checksum-valid segment leaves all attributes, the state among them, as they were.
\<close>

theorem handshake_determinism:
  assumes "c_state self = SYN_SENT" and "c_seqnum self = Some S"
    and "client_checksum_ok segment h"
  shows "client_lossy_layer_segment_received self segment =
    (if h_syn h \<and> h_ack h \<and> h_acknum h = S + 1
     then (self\<lparr> c_acknum := h_seqnum h, server_window := h_window h, synack_recv := True \<rparr>,
           Returned PyNone)
     else (self, Returned PyNone))"
proof -
  have "c_state self \<noteq> CLOSED" using assms(1) by simp
  then have "client_lossy_layer_segment_received self segment = client_syn_sent self h"
    using client_valid_dispatch [OF assms(3)] assms(1) by simp
  then show ?thesis
    using assms(2) by (auto simp: client_syn_sent_def)
qed

theorem handshake_determinism_witness:
  "c_state ((client_init 100)\<lparr> c_state := SYN_SENT, c_seqnum := Some 5 \<rparr>) = SYN_SENT
   \<and> c_seqnum ((client_init 100)\<lparr> c_state := SYN_SENT, c_seqnum := Some 5 \<rparr>) = Some 5
   \<and> client_checksum_ok ([0, 7, 0, 6, 6, 100, 0, 0, 249, 143] @ zero_payload)
       \<lparr> h_seqnum = 7, h_acknum = 6, h_syn = True, h_ack = True, h_fin = False,
          h_window = 100, h_datalen = 0, h_checksum = 63887 \<rparr>
   \<and> client_lossy_layer_segment_received
       ((client_init 100)\<lparr> c_state := SYN_SENT, c_seqnum := Some 5 \<rparr>)
       ([0, 7, 0, 6, 6, 100, 0, 0, 249, 143] @ zero_payload)
     = ((client_init 100)\<lparr> c_state := SYN_SENT, c_seqnum := Some 5, c_acknum := 7,
          synack_recv := True \<rparr>, Returned PyNone)"
proof -
  let ?c = "(client_init 100)\<lparr> c_state := SYN_SENT, c_seqnum := Some 5 \<rparr>"
  let ?h = "\<lparr> h_seqnum = 7, h_acknum = 6, h_syn = True, h_ack = True, h_fin = False,
              h_window = 100, h_datalen = 0, h_checksum = 63887 \<rparr>"
  have 1: "c_state ?c = SYN_SENT" and 2: "c_seqnum ?c = Some 5"
    by simp_all
  have 3: "client_checksum_ok ([0, 7, 0, 6, 6, 100, 0, 0, 249, 143] @ zero_payload) ?h"
    by (simp add: client_checksum_ok_def client_check_def codec_defs)
  show ?thesis
    using handshake_determinism [OF 1 2 3] 1 2 3 by (simp add: client_init_def)
qed

subsection \<open>Server: classification of the flags\<close>

text \<open>
  Claim C7 says that the five categories the server derives from the flags are
  mutually exclusive for every combination of the three flag bits. \<open>FIN\<close> is
  guarded by \<open>SYN\<close> and \<open>ACK\<close>, which are both false once \<open>SYNACK\<close> holds: a segment
  with all three flags set is classified both as SYN+ACK and as FIN.
\<close>

theorem classify_overlaps:
  "classify True True True =
     \<lparr> SYNACK = True, SYN = False, ACK = False, FIN = True, NOFLAG = False \<rparr>"
  by (simp add: classify_def)

subsection \<open>connect: the value returned\<close>

text \<open>
  Claim C8 says that \<open>connect\<close> returns a value that tells failure by retry exhaustion
  from success. It does not: with no answer in two retries the state ends as CLOSED,
  with a matching SYN+ACK it ends as ESTABLISHED, and both calls return \<open>None\<close>.
\<close>

theorem connect_return_same_on_failure_and_success:
  "snd (connect 5 2 [] (client_init 100)) = Returned PyNone
   \<and> c_state (fst (connect 5 2 [] (client_init 100))) = CLOSED
   \<and> snd (connect 5 2 [[[0, 7, 0, 6, 6, 100, 0, 0, 249, 143] @ zero_payload]] (client_init 100))
       = Returned PyNone
   \<and> c_state (fst (connect 5 2 [[[0, 7, 0, 6, 6, 100, 0, 0, 249, 143] @ zero_payload]]
                     (client_init 100))) = ESTABLISHED"
  by (simp add: client_init_def codec_defs connect_defs Let_def)

text \<open>
  Claim C8 as amended. \<open>connect\<close> returns \<open>None\<close> on both paths; the outcome shows in
  the state alone: CLOSED after retry exhaustion, ESTABLISHED once the SYN+ACK has
  been recorded. This holds for every initial sequence number below 65535, every
  acknum and window that fit their header fields, and every run in which the acknum
  counted up from the peer's seqnum still fits 16 bits.
\<close>

theorem connect_returns_None:
  assumes "0 \<le> rnd" "rnd < 65535"
    and "0 \<le> c_acknum self" "c_acknum self \<le> 65535"
    and "0 \<le> client_window self" "client_window self \<le> 255"
    and "c_acknum (fst (connect rnd RETRIES arrivals self)) \<le> 65535"
  shows "snd (connect rnd RETRIES arrivals self) = Returned PyNone \<and>
         c_state (fst (connect rnd RETRIES arrivals self)) =
           (if synack_recv (fst (connect rnd RETRIES arrivals self))
            then ESTABLISHED else CLOSED)"
proof -
  let ?w = "client_window self"
  have r: "in_H rnd" "in_H (c_acknum self)" "in_B ?w" "in_H 0" "in_H (rnd + 1)"
    using assms unfolding in_H_def in_B_def by simp_all
  obtain hb c hb' where b:
    "build_segment_header rnd (c_acknum self) True False False ?w 0 0 = Inr hb"
    "in_cksum hb = Inr c"
    "build_segment_header rnd (c_acknum self) True False False ?w 0 c = Inr hb'"
    using two_pass_ok [OF r(1,2,3,4), of True False False] by blast
  let ?seg = "hb' @ zero_payload"
  let ?s1 = "self\<lparr> c_seqnum := Some rnd, c_sent := c_sent self @ [?seg], c_state := SYN_SENT \<rparr>"
  let ?s2 = "connect_retries RETRIES ?seg arrivals ?s1"
  have "syn_sent_inv rnd ?w ?s1" using r by (simp add: syn_sent_inv_def)
  then have inv: "syn_sent_inv rnd ?w ?s2" by (rule connect_retries_inv)
  have eq: "connect rnd RETRIES arrivals self =
      (if \<not> synack_recv ?s2 then (?s2\<lparr> c_state := CLOSED \<rparr>, Returned PyNone)
       else connect_established ?s2)"
    unfolding connect_def using b by (simp add: Let_def)
  show ?thesis
  proof (cases "synack_recv ?s2")
    case False
    then show ?thesis unfolding eq by simp
  next
    case True
    have "c_acknum (fst (connect_established ?s2)) \<le> 65535"
      using assms(7) True unfolding eq by simp
    then have "in_H (c_acknum ?s2 + 1)"
      using inv unfolding connect_established_acknum syn_sent_inv_def in_H_def by simp
    moreover have "c_seqnum ?s2 = Some rnd" "in_B (client_window ?s2)"
      using inv r unfolding syn_sent_inv_def by simp_all
    ultimately have "snd (connect_established ?s2) = Returned PyNone \<and>
         c_state (fst (connect_established ?s2)) = ESTABLISHED"
      using connect_established_ok [of ?s2 rnd] r by simp
    then show ?thesis using True unfolding eq by (simp add: connect_established_flag)
  qed
qed

theorem connect_returns_None_witness:
  "(0::int) \<le> 5 \<and> (5::int) < 65535
   \<and> 0 \<le> c_acknum (client_init 100) \<and> c_acknum (client_init 100) \<le> 65535
   \<and> 0 \<le> client_window (client_init 100) \<and> client_window (client_init 100) \<le> 255
   \<and> c_acknum (fst (connect 5 2 [[[0, 7, 0, 6, 6, 100, 0, 0, 249, 143] @ zero_payload]]
                      (client_init 100))) \<le> 65535
   \<and> synack_recv (fst (connect 5 2 [[[0, 7, 0, 6, 6, 100, 0, 0, 249, 143] @ zero_payload]]
                         (client_init 100)))
   \<and> snd (connect 5 2 [[[0, 7, 0, 6, 6, 100, 0, 0, 249, 143] @ zero_payload]] (client_init 100))
       = Returned PyNone
   \<and> c_state (fst (connect 5 2 [[[0, 7, 0, 6, 6, 100, 0, 0, 249, 143] @ zero_payload]]
                     (client_init 100))) = ESTABLISHED"
proof -
  let ?r = "connect 5 2 [[[0, 7, 0, 6, 6, 100, 0, 0, 249, 143] @ zero_payload]] (client_init 100)"
  have a: "c_acknum (fst ?r) \<le> 65535" "synack_recv (fst ?r)"
    by (simp_all add: client_init_def codec_defs connect_defs Let_def)
  have h: "(0::int) \<le> 5" "(5::int) < 65535"
    "0 \<le> c_acknum (client_init 100)" "c_acknum (client_init 100) \<le> 65535"
    "0 \<le> client_window (client_init 100)" "client_window (client_init 100) \<le> 255"
    by (simp_all add: client_init_def)
  show ?thesis
    using connect_returns_None [OF h a(1)] a h by simp
qed

subsection \<open>The header codec\<close>

text \<open>
  Claim C9. For all field values in range (seqnum, acknum, length and checksum in
  0..65535, window in 0..255, any three flags) \<open>build_segment_header\<close> succeeds and
  \<open>unpack_segment_header\<close> returns exactly the values given, the flags as booleans;
  and unpacking ten bytes never fails, whatever the flags byte holds.
\<close>

theorem header_codec_roundtrip:
  assumes "0 \<le> seqnum" "seqnum \<le> 65535" "0 \<le> acknum" "acknum \<le> 65535"
    and "0 \<le> window" "window \<le> 255" "0 \<le> datalen" "datalen \<le> 65535"
    and "0 \<le> checksum" "checksum \<le> 65535"
  shows "(\<exists>hb. build_segment_header seqnum acknum syn ack fin window datalen checksum = Inr hb \<and>
            unpack_segment_header hb =
              Inr \<lparr> h_seqnum = seqnum, h_acknum = acknum, h_syn = syn, h_ack = ack,
                     h_fin = fin, h_window = window, h_datalen = datalen,
                     h_checksum = checksum \<rparr>)
       \<and> (\<forall>e. unpack_segment_header [s1, s0, a1, a0, f, w, l1, l0, c1, c0] \<noteq> Inl e)"
proof -
  have r: "in_H seqnum" "in_H acknum" "in_B window" "in_H datalen" "in_H checksum"
    using assms unfolding in_H_def in_B_def by simp_all
  obtain hb where
    hb: "build_segment_header seqnum acknum syn ack fin window datalen checksum = Inr hb"
    using build_ok [OF r, of syn ack fin] by blast
  have "\<forall>e. unpack_segment_header [s1, s0, a1, a0, f, w, l1, l0, c1, c0] \<noteq> Inl e"
    by (simp add: Let_def)
  then show ?thesis using hb unpack_build [OF hb] by blast
qed

theorem header_codec_roundtrip_witness:
  "(0::int) \<le> 7 \<and> (7::int) \<le> 65535 \<and> (0::int) \<le> 6 \<and> (6::int) \<le> 65535
   \<and> (0::int) \<le> 100 \<and> (100::int) \<le> 255 \<and> (0::int) \<le> 0 \<and> (0::int) \<le> 65535
   \<and> (0::int) \<le> 63887 \<and> (63887::int) \<le> 65535
   \<and> build_segment_header 7 6 True True False 100 0 63887
        = Inr [0, 7, 0, 6, 6, 100, 0, 0, 249, 143]
   \<and> unpack_segment_header [0, 7, 0, 6, 6, 100, 0, 0, 249, 143]
        = Inr \<lparr> h_seqnum = 7, h_acknum = 6, h_syn = True, h_ack = True, h_fin = False,
                 h_window = 100, h_datalen = 0, h_checksum = 63887 \<rparr>
   \<and> unpack_segment_header [0, 0, 0, 0, 255, 0, 0, 0, 0, 0] \<noteq> Inl StructError"
  using header_codec_roundtrip [of 7 6 100 0 63887 True True False 0 0 0 0 255 0 0 0 0 0]
  by (simp add: codec_defs)

subsection \<open>Client: a tick before connect\<close>

text \<open>
  Claim C10. \<open>lossy_layer_tick\<close> has no guard for the CLOSED state: on a socket that
  is CLOSED and whose seqnum is still \<open>None\<close>, as it is from construction until
  \<open>connect\<close> assigns one, the window condition \<open>seqnum - last_rec_ack\<close> raises
  \<open>TypeError\<close>.
\<close>

theorem tick_before_connect_raises:
  assumes "c_state self = CLOSED" and "c_seqnum self = None"
  shows "snd (client_lossy_layer_tick TIMEOUT now self) = Raised TypeError"
  using assms(2) unfolding client_lossy_layer_tick_def
  by (simp split: prod.splits)

theorem tick_before_connect_raises_witness:
  "c_state (client_init 100) = CLOSED \<and> c_seqnum (client_init 100) = None
   \<and> snd (client_lossy_layer_tick 1 0 (client_init 100)) = Raised TypeError"
proof -
  have 1: "c_state (client_init 100) = CLOSED" and 2: "c_seqnum (client_init 100) = None"
    by (simp_all add: client_init_def)
  show ?thesis
    using tick_before_connect_raises [OF 1 2, of 1 0] 1 2 by simp
qed

end
